theory Spec2Isabelle
  imports Complex_Main "HOL-Library.AList" "HOL-Library.Word"
begin

section \<open>Numbers\<close>

text \<open>
  Coordinates and distances are JavaScript numbers; they are modelled as reals, so rounding
  is abstracted away. The one place where the difference between a real and a JavaScript
  number decides the behaviour is the unguarded division that computes a scale: dividing by
  zero does not fail in JavaScript but yields \<open>Infinity\<close>, \<open>-Infinity\<close> or \<open>NaN\<close>.
  The type \<open>jsnum\<close> keeps those results apart from the finite ones.
\<close>

datatype jsnum = Num real | PosInfinity | NegInfinity | NaN

fun is_finite :: "jsnum \<Rightarrow> bool" where
  "is_finite (Num r) = True"
| "is_finite PosInfinity = False"
| "is_finite NegInfinity = False"
| "is_finite NaN = False"

definition js_div :: "real \<Rightarrow> real \<Rightarrow> jsnum" where
  "js_div a b =
     (if b \<noteq> 0 then Num (a / b)
      else if a = 0 then NaN
      else if 0 < a then PosInfinity
      else NegInfinity)"

definition hypot :: "real \<Rightarrow> real \<Rightarrow> real" where
  "hypot dx dy = sqrt (dx\<^sup>2 + dy\<^sup>2)"

section \<open>The insertion-ordered Map of JavaScript\<close>

text \<open>
  A JavaScript \<open>Map\<close> iterates in insertion order, and \<open>set\<close> on a key that is present
  replaces the value in place. An association list with these operations is that container.
\<close>

type_synonym ('k, 'v) jsmap = "('k \<times> 'v) list"

abbreviation map_set :: "'k \<Rightarrow> 'v \<Rightarrow> ('k, 'v) jsmap \<Rightarrow> ('k, 'v) jsmap" where
  "map_set k v m \<equiv> AList.update k v m"

abbreviation map_delete :: "'k \<Rightarrow> ('k, 'v) jsmap \<Rightarrow> ('k, 'v) jsmap" where
  "map_delete k m \<equiv> AList.delete k m"

abbreviation map_get :: "('k, 'v) jsmap \<Rightarrow> 'k \<Rightarrow> 'v option" where
  "map_get m k \<equiv> map_of m k"

abbreviation map_size :: "('k, 'v) jsmap \<Rightarrow> nat" where
  "map_size m \<equiv> length m"

abbreviation map_values :: "('k, 'v) jsmap \<Rightarrow> 'v list" where
  "map_values m \<equiv> map snd m"

section \<open>Data of the gesture translator\<close>

record point =
  pt_x :: real
  pt_y :: real

text \<open>An entry of \<open>pointers\<close>: \<open>{ x, y, type }\<close>.\<close>

record tracked =
  tr_x :: real
  tr_y :: real
  tr_type :: string

text \<open>
  The second argument of \<open>foamtree.trigger\<close>. \<open>pl_scale = None\<close> is a payload without a
  \<open>scale\<close> property; \<open>pl_secondary\<close> is True exactly when the payload carries
  \<open>secondary: true\<close> (the source never writes \<open>secondary: false\<close>).
\<close>

record payload =
  pl_x :: real
  pl_y :: real
  pl_scale :: "jsnum option"
  pl_secondary :: bool

text \<open>A call \<open>foamtree.value.trigger(name, payload)\<close>.\<close>

type_synonym gesture = "string \<times> payload"

record rect =
  rect_left :: real
  rect_top :: real

text \<open>
  What the handlers read from the component at the time an event is delivered: whether
  \<open>foamtree.value\<close> is set, and the bounding rectangle of \<open>container.value\<close>
  (\<open>None\<close> when the container is not attached).
\<close>

record host =
  foamtree :: bool
  container :: "rect option"

record mouse_event =
  clientX :: real
  clientY :: real

record pointer_event = mouse_event +
  pointerId :: int
  pointerType :: string
  button :: int

record wheel_event = mouse_event +
  deltaY :: real

record gstate =
  pointers :: "(int, tracked) jsmap"
  startPos :: "(int, point) jsmap"
  baseDist :: real
  dragging :: bool
  transforming :: bool

datatype error = TypeError

text \<open>
  What a handler leaves behind: the state as mutated so far, the \<open>trigger\<close> calls it made
  in order, and the exception that aborted it, if any.
\<close>

record outcome =
  state_after :: gstate
  emitted :: "gesture list"
  thrown :: "error option"

definition TAP_TOLERANCE :: real where
  "TAP_TOLERANCE = 6"

definition init_state :: gstate where
  "init_state = \<lparr> pointers = [], startPos = [], baseDist = 0,
                  dragging = False, transforming = False \<rparr>"

section \<open>Helpers of the source\<close>

definition rel :: "host \<Rightarrow> 'a mouse_event_scheme \<Rightarrow> point" where
  "rel h ev =
     (case container h of
        None \<Rightarrow> \<lparr> pt_x = 0, pt_y = 0 \<rparr>
      | Some r \<Rightarrow> \<lparr> pt_x = clientX ev - rect_left r, pt_y = clientY ev - rect_top r \<rparr>)"

definition dist_pt :: "point \<Rightarrow> point \<Rightarrow> real" where
  "dist_pt a b = (let dx = pt_x a - pt_x b; dy = pt_y a - pt_y b in hypot dx dy)"

text \<open>\<open>{ x: aRaw.x, y: aRaw.y }\<close>\<close>

definition xy_of :: "tracked \<Rightarrow> point" where
  "xy_of t = \<lparr> pt_x = tr_x t, pt_y = tr_y t \<rparr>"

text \<open>\<open>{ ...p, type: t }\<close>\<close>

definition with_type :: "point \<Rightarrow> string \<Rightarrow> tracked" where
  "with_type p t = \<lparr> tr_x = pt_x p, tr_y = pt_y p, tr_type = t \<rparr>"

text \<open>The payloads \<open>p\<close>, \<open>{ ...p, secondary: true }\<close> and \<open>{ ...p, scale, secondary: true }\<close>.\<close>

definition plain :: "point \<Rightarrow> payload" where
  "plain p = \<lparr> pl_x = pt_x p, pl_y = pt_y p, pl_scale = None, pl_secondary = False \<rparr>"

definition secondary :: "point \<Rightarrow> payload" where
  "secondary p = \<lparr> pl_x = pt_x p, pl_y = pt_y p, pl_scale = None, pl_secondary = True \<rparr>"

definition scaled :: "point \<Rightarrow> jsnum \<Rightarrow> payload" where
  "scaled p sc = \<lparr> pl_x = pt_x p, pl_y = pt_y p, pl_scale = Some sc, pl_secondary = True \<rparr>"

definition returned :: "gstate \<Rightarrow> gesture list \<Rightarrow> outcome" where
  "returned s out = \<lparr> state_after = s, emitted = out, thrown = None \<rparr>"

definition threw :: "gstate \<Rightarrow> gesture list \<Rightarrow> outcome" where
  "threw s out = \<lparr> state_after = s, emitted = out, thrown = Some TypeError \<rparr>"

section \<open>The handlers\<close>

text \<open>
  \<open>onPointerDown\<close>. Destructuring the first two values of \<open>pointers\<close> cannot fail when
  the size is at least two; the branch for a shorter list is the TypeError that reading
  \<open>.x\<close> of \<open>undefined\<close> would raise.
\<close>

definition onPointerDown :: "host \<Rightarrow> pointer_event \<Rightarrow> gstate \<Rightarrow> outcome" where
  "onPointerDown h ev s =
     (if \<not> foamtree h then returned s []
      else if pointerType ev = ''mouse'' \<and> button ev \<noteq> 0 then returned s []
      else
        let p = rel h ev;
            s1 = s \<lparr> pointers := map_set (pointerId ev) (with_type p (pointerType ev)) (pointers s),
                     startPos := map_set (pointerId ev) p (startPos s) \<rparr>
        in if map_size (pointers s1) \<ge> 2 then
             (case map_values (pointers s1) of
                aRaw # bRaw # _ \<Rightarrow>
                  let a = xy_of aRaw; b = xy_of bRaw
                  in returned (s1 \<lparr> baseDist := dist_pt a b, transforming := True \<rparr>)
                       [(''transformstart'', secondary a)]
              | _ \<Rightarrow> threw s1 [])
           else returned (s1 \<lparr> dragging := False \<rparr>) [])"

text \<open>
  \<open>onPointerMove\<close>. The test \<open>pointers.has(id)\<close> and the read \<open>pointers.get(id)\<close>
  that follows it are one lookup. \<open>startPos.get(id)!\<close> is \<open>undefined\<close> when the key is
  missing, and \<open>dist(p, undefined)\<close> raises a TypeError; \<open>&&\<close> evaluates it only when
  \<open>dragging\<close> is false.
\<close>

definition onPointerMove :: "host \<Rightarrow> pointer_event \<Rightarrow> gstate \<Rightarrow> outcome" where
  "onPointerMove h ev s =
     (if \<not> foamtree h then returned s []
      else case map_get (pointers s) (pointerId ev) of
        None \<Rightarrow> returned s []
      | Some meta \<Rightarrow>
          let p = rel h ev;
              s1 = s \<lparr> pointers := map_set (pointerId ev) (with_type p (tr_type meta)) (pointers s) \<rparr>
          in if map_size (pointers s1) = 1 \<and> \<not> transforming s1 then
               (if \<not> dragging s1 then
                  (case map_get (startPos s1) (pointerId ev) of
                     None \<Rightarrow> threw s1 []
                   | Some st \<Rightarrow>
                       if dist_pt p st > TAP_TOLERANCE
                       then returned (s1 \<lparr> dragging := True \<rparr>)
                              [(''dragstart'', plain p), (''drag'', plain p)]
                       else returned s1 [])
                else returned s1 [(''drag'', plain p)])
             else if map_size (pointers s1) = 2 then
               (case map_values (pointers s1) of
                  aRaw # bRaw # _ \<Rightarrow>
                    let a = xy_of aRaw; b = xy_of bRaw;
                        scale = js_div (dist_pt a b) (baseDist s1)
                    in returned s1 [(''transform'', scaled a scale)]
                | _ \<Rightarrow> threw s1 [])
             else returned s1 [])"

definition onPointerUp :: "host \<Rightarrow> pointer_event \<Rightarrow> gstate \<Rightarrow> outcome" where
  "onPointerUp h ev s =
     (if \<not> foamtree h then returned s []
      else
        let p = rel h ev;
            out1 = (if transforming s then [(''transformend'', plain p)] else []);
            out2 = (if dragging s then [(''dragend'', plain p)] else []);
            s1 = s \<lparr> pointers := map_delete (pointerId ev) (pointers s),
                     startPos := map_delete (pointerId ev) (startPos s) \<rparr>;
            out3 = (if \<not> dragging s1 \<and> \<not> transforming s1 then [(''click'', plain p)] else []);
            s2 = (if map_size (pointers s1) = 0
                  then s1 \<lparr> dragging := False, transforming := False \<rparr> else s1)
        in returned s2 (out1 @ out2 @ out3))"

definition onWheel :: "host \<Rightarrow> wheel_event \<Rightarrow> gstate \<Rightarrow> outcome" where
  "onWheel h ev s =
     (if \<not> foamtree h then returned s []
      else
        let p = rel h ev;
            scale = (if deltaY ev < 0 then Num 1.03 else Num 0.97)
        in returned s [(''transformstart'', secondary p),
                       (''transform'', scaled p scale),
                       (''transformend'', secondary p)])"

section \<open>Event delivery\<close>

text \<open>
  The listeners that \<open>onMounted\<close> attaches: \<open>pointerdown\<close>, \<open>pointermove\<close>,
  \<open>pointerup\<close>, \<open>pointercancel\<close> and \<open>wheel\<close>. An event arrives together with the
  host values its handler reads.
\<close>

datatype input =
    PointerDown pointer_event
  | PointerMove pointer_event
  | PointerUp pointer_event
  | PointerCancel pointer_event
  | Wheel wheel_event

fun dispatch :: "gstate \<Rightarrow> host \<times> input \<Rightarrow> outcome" where
  "dispatch s (h, PointerDown ev) = onPointerDown h ev s"
| "dispatch s (h, PointerMove ev) = onPointerMove h ev s"
| "dispatch s (h, PointerUp ev) = onPointerUp h ev s"
| "dispatch s (h, PointerCancel ev) = onPointerUp h ev s"
| "dispatch s (h, Wheel ev) = onWheel h ev s"

text \<open>
  A sequence of deliveries: the state it ends in, every gesture it triggers, in order, and
  the exceptions it raises. An exception aborts only the handler it is raised in.
\<close>

fun final :: "gstate \<Rightarrow> (host \<times> input) list \<Rightarrow> gstate" where
  "final s [] = s"
| "final s (d # ds) = final (state_after (dispatch s d)) ds"

fun trace :: "gstate \<Rightarrow> (host \<times> input) list \<Rightarrow> gesture list" where
  "trace s [] = []"
| "trace s (d # ds) = emitted (dispatch s d) @ trace (state_after (dispatch s d)) ds"

fun errors :: "gstate \<Rightarrow> (host \<times> input) list \<Rightarrow> error list" where
  "errors s [] = []"
| "errors s (d # ds) =
     (case thrown (dispatch s d) of None \<Rightarrow> [] | Some e \<Rightarrow> [e])
       @ errors (state_after (dispatch s d)) ds"

section \<open>Predicates on translator states\<close>

text \<open>The idle state: no pointer, no start position, no gesture in progress.\<close>

definition idle :: "gstate \<Rightarrow> bool" where
  "idle s \<longleftrightarrow> pointers s = [] \<and> startPos s = [] \<and> \<not> dragging s \<and> \<not> transforming s"

text \<open>
  What holds of every state the handlers can reach from \<open>init_state\<close>: the two Maps have
  the same keys in the same order, each key once; two pointers force \<open>transforming\<close>; a
  gesture flag needs a pointer; and the baseline is a distance.
\<close>

definition consistent :: "gstate \<Rightarrow> bool" where
  "consistent s \<longleftrightarrow>
     distinct (map fst (pointers s)) \<and>
     map fst (startPos s) = map fst (pointers s) \<and>
     (2 \<le> map_size (pointers s) \<longrightarrow> transforming s) \<and>
     (transforming s \<longrightarrow> 1 \<le> map_size (pointers s)) \<and>
     (dragging s \<longrightarrow> 1 \<le> map_size (pointers s)) \<and>
     0 \<le> baseDist s"

text \<open>A list of pointer moves, each delivered with its host values.\<close>

definition moves :: "(host \<times> pointer_event) list \<Rightarrow> (host \<times> input) list" where
  "moves ms = map (\<lambda>(h, m). (h, PointerMove m)) ms"

text \<open>The gesture names of a trace.\<close>

definition names :: "gesture list \<Rightarrow> string list" where
  "names tr = map fst tr"

section \<open>Concrete inputs\<close>

text \<open>
  A host with a rendering instance and a container whose top left corner is the origin of
  the client area, a touch contact, and a mouse pointer with a given button.
\<close>

definition attached :: host where
  "attached = \<lparr> foamtree = True, container = Some \<lparr> rect_left = 0, rect_top = 0 \<rparr> \<rparr>"

definition touch :: "int \<Rightarrow> real \<Rightarrow> real \<Rightarrow> pointer_event" where
  "touch i x y = \<lparr> clientX = x, clientY = y, pointerId = i, pointerType = ''touch'', button = 0 \<rparr>"

definition mouse :: "int \<Rightarrow> real \<Rightarrow> real \<Rightarrow> pointer_event" where
  "mouse b x y = \<lparr> clientX = x, clientY = y, pointerId = 1, pointerType = ''mouse'', button = b \<rparr>"

definition wheel :: "real \<Rightarrow> real \<Rightarrow> real \<Rightarrow> wheel_event" where
  "wheel d x y = \<lparr> clientX = x, clientY = y, deltaY = d \<rparr>"

section \<open>Clustering\<close>

text \<open>
  \<open>clusterResults\<close> calls three functions of an external library and reads the
  \<open>edgeScores\<close> of the graph type that library declares. They are parameters of the
  model, and so is the graph type \<open>'g\<close>. A vector is a \<open>Uint8Array\<close>; reading
  \<open>props.vectors[i]\<close> out of range gives \<open>undefined\<close>, here \<open>None\<close>.
\<close>

type_synonym vec = "8 word list"

record 'g library =
  buildSimilarityGraph :: "vec list \<Rightarrow> 'g"
  edgeScores :: "'g \<Rightarrow> real list list"
  clusterByThreshold :: "'g \<Rightarrow> real \<Rightarrow> nat list list"
  mergeVectors :: "vec option list \<Rightarrow> vec"

record cluster =
  clusterIndex :: nat
  indices :: "nat list"
  mergedVector :: vec
  score :: int

record props =
  vectors :: "vec list"
  minClusterSim :: real
  minDocsPerCluster :: real
  minSliderSim :: "unit \<Rightarrow> real"

record 'g cstate =
  simGraph :: "'g option"
  sliderSim :: real
  minFoundSim :: real
  maxFoundSim :: real
  clusters :: "cluster list"

datatype 'g notification =
    SimilarityGraphBuilt 'g
  | ClusterClicked nat string "nat list"

definition init_cstate :: "props \<Rightarrow> 'g cstate" where
  "init_cstate pr = \<lparr> simGraph = None, sliderSim = minClusterSim pr,
                       minFoundSim = 0, maxFoundSim = 1, clusters = [] \<rparr>"

definition vector_at :: "vec list \<Rightarrow> nat \<Rightarrow> vec option" where
  "vector_at vs i = (if i < length vs then Some (vs ! i) else None)"

text \<open>The largest edge score, from 0, and the smallest, from 1.\<close>

definition max_score :: "real list list \<Rightarrow> real" where
  "max_score es = fold (\<lambda>cl acc. fold (\<lambda>sc mx. max sc mx) cl acc) es 0"

definition min_score :: "real list list \<Rightarrow> real" where
  "min_score es = fold (\<lambda>cl acc. fold (\<lambda>sc mn. min sc mn) cl acc) es 1"

text \<open>
  The clusters of a threshold: groups below \<open>minDocsPerCluster\<close> are dropped, the others
  numbered in order, scored by their size and sorted by descending score
  (\<open>Array.prototype.sort\<close> is stable, as \<open>sort_key\<close> is).
\<close>

definition build_clusters :: "'g library \<Rightarrow> props \<Rightarrow> 'g \<Rightarrow> real \<Rightarrow> cluster list" where
  "build_clusters L pr g sim =
     (let clusteredIDs = clusterByThreshold L g sim;
          kept = filter (\<lambda>c. real (length c) \<ge> minDocsPerCluster pr) clusteredIDs;
          unsortedClusters =
            map (\<lambda>(n, clusterIndices).
                   \<lparr> clusterIndex = n, indices = clusterIndices,
                     mergedVector = mergeVectors L (map (vector_at (vectors pr)) clusterIndices),
                     score = int (length clusterIndices) \<rparr>)
                (enumerate 0 kept)
      in sort_key (\<lambda>c. - score c) unsortedClusters)"

definition clusterResults ::
    "'g library \<Rightarrow> props \<Rightarrow> 'g cstate \<Rightarrow> 'g cstate \<times> 'g notification list" where
  "clusterResults L pr s =
     (case simGraph s of
        None \<Rightarrow>
          let g = buildSimilarityGraph L (vectors pr);
              s1 = s \<lparr> simGraph := Some g,
                       minFoundSim := max (minSliderSim pr ()) (min_score (edgeScores L g)),
                       maxFoundSim := max_score (edgeScores L g) \<rparr>
          in (s1 \<lparr> clusters := build_clusters L pr g (sliderSim s1) \<rparr>, [SimilarityGraphBuilt g])
      | Some g \<Rightarrow> (s \<lparr> clusters := build_clusters L pr g (sliderSim s) \<rparr>, []))"

text \<open>\<open>onMounted\<close> clusters once.\<close>

definition mounted :: "'g library \<Rightarrow> props \<Rightarrow> 'g cstate \<times> 'g notification list" where
  "mounted L pr = clusterResults L pr (init_cstate pr)"

text \<open>
  The slider writes \<open>sliderSim\<close> through \<open>v-model\<close>; the watcher runs when the value
  has changed, and re-clusters unless the new value is \<open>props.minClusterSim\<close>.
\<close>

definition watch_sliderSim ::
    "'g library \<Rightarrow> props \<Rightarrow> 'g cstate \<Rightarrow> 'g cstate \<times> 'g notification list" where
  "watch_sliderSim L pr s =
     (if sliderSim s \<noteq> minClusterSim pr then clusterResults L pr s else (s, []))"

definition slide ::
    "'g library \<Rightarrow> props \<Rightarrow> real \<Rightarrow> 'g cstate \<Rightarrow> 'g cstate \<times> 'g notification list" where
  "slide L pr v s =
     (if v = sliderSim s then (s, []) else watch_sliderSim L pr (s \<lparr> sliderSim := v \<rparr>))"

fun slides ::
    "'g library \<Rightarrow> props \<Rightarrow> 'g cstate \<Rightarrow> real list \<Rightarrow> 'g cstate \<times> 'g notification list" where
  "slides L pr s [] = (s, [])"
| "slides L pr s (v # vs) =
     (let (s1, out1) = slide L pr v s; (s2, out2) = slides L pr s1 vs in (s2, out1 @ out2))"

text \<open>A library and properties to run the clustering on: a graph is its matrix of scores.\<close>

definition demo_library :: "(real list list) library" where
  "demo_library =
     \<lparr> buildSimilarityGraph = (\<lambda>vs. [[0.9, 0.7], [0.8]]),
       edgeScores = (\<lambda>g. g),
       clusterByThreshold = (\<lambda>g sim. if sim \<le> 0.75 then [[0, 1, 2]] else [[0], [1, 2]]),
       mergeVectors = (\<lambda>vs. case vs of Some v # _ \<Rightarrow> v | _ \<Rightarrow> []) \<rparr>"

definition demo_props :: props where
  "demo_props = \<lparr> vectors = [[1], [3], [7]], minClusterSim = 0.7, minDocsPerCluster = 1,
                   minSliderSim = (\<lambda>_. 0.6) \<rparr>"

section \<open>Phases of a single-pointer gesture\<close>

text \<open>
  One pointer \<open>i\<close> is down at start position \<open>p0\<close> and has not left the tolerance yet;
  and one pointer \<open>i\<close> is being dragged.
\<close>

definition tracking_one :: "int \<Rightarrow> point \<Rightarrow> gstate \<Rightarrow> bool" where
  "tracking_one i p0 s \<longleftrightarrow>
     map fst (pointers s) = [i] \<and> startPos s = [(i, p0)] \<and> \<not> dragging s \<and> \<not> transforming s"

definition drag_phase :: "int \<Rightarrow> gstate \<Rightarrow> bool" where
  "drag_phase i s \<longleftrightarrow>
     map fst (pointers s) = [i] \<and> map fst (startPos s) = [i] \<and> dragging s \<and> \<not> transforming s"

section \<open>Distances and the Map operations\<close>

lemma dist_nonneg: "0 \<le> dist_pt a b"
  by (simp add: dist_pt_def hypot_def Let_def)

lemma length_update:
  "length (AList.update k v al) = (if k \<in> fst ` set al then length al else Suc (length al))"
  by (induction al) auto

lemma delete_Nil_iff: "AList.delete k al = [] \<longleftrightarrow> removeAll k (map fst al) = []"
  by (metis delete_keys map_is_Nil_conv)

lemma length_delete_ge2: "2 \<le> length (AList.delete k al) \<Longrightarrow> 2 \<le> length al"
  using length_delete_le[of k al] by linarith

lemma first_two:
  "2 \<le> length xs \<Longrightarrow>
     (case xs of a # b # r \<Rightarrow> f a b | _ \<Rightarrow> g) = f (hd xs) (hd (tl xs))"
  by (cases xs; cases "tl xs") auto

lemma length_keys: "length (map fst al) = length al"
  by simp

lemma consistent_init: "consistent init_state"
  by (simp add: consistent_def init_state_def)

lemma down_ignored:
  "\<not> foamtree h \<or> (pointerType ev = ''mouse'' \<and> button ev \<noteq> 0) \<Longrightarrow>
     onPointerDown h ev s = returned s []"
  by (auto simp: onPointerDown_def)

lemma down_second:
  assumes "foamtree h" "\<not> (pointerType ev = ''mouse'' \<and> button ev \<noteq> 0)"
    and "P = map_set (pointerId ev) (with_type (rel h ev) (pointerType ev)) (pointers s)"
    and "2 \<le> length P"
  shows "onPointerDown h ev s =
     returned (s \<lparr> pointers := P,
                   startPos := map_set (pointerId ev) (rel h ev) (startPos s),
                   baseDist := dist_pt (xy_of (snd (hd P))) (xy_of (snd (hd (tl P)))),
                   transforming := True \<rparr>)
              [(''transformstart'', secondary (xy_of (snd (hd P))))]"
proof -
  obtain a b r where "P = a # b # r"
    using assms(4) by (cases P; cases "tl P") auto
  then show ?thesis
    using assms(1-3) by (auto simp: onPointerDown_def Let_def)
qed

lemma down_first:
  assumes "foamtree h" "\<not> (pointerType ev = ''mouse'' \<and> button ev \<noteq> 0)"
    and "P = map_set (pointerId ev) (with_type (rel h ev) (pointerType ev)) (pointers s)"
    and "\<not> 2 \<le> length P"
  shows "onPointerDown h ev s =
     returned (s \<lparr> pointers := P,
                   startPos := map_set (pointerId ev) (rel h ev) (startPos s),
                   dragging := False \<rparr>) []"
  using assms by (auto simp: onPointerDown_def Let_def)

lemma consistent_down:
  assumes "consistent s" shows "consistent (state_after (onPointerDown h ev s))"
proof (cases "\<not> foamtree h \<or> (pointerType ev = ''mouse'' \<and> button ev \<noteq> 0)")
  case True
  then show ?thesis using assms by (simp add: down_ignored returned_def)
next
  case False
  define P where "P = map_set (pointerId ev) (with_type (rel h ev) (pointerType ev)) (pointers s)"
  have keys: "map fst (map_set (pointerId ev) (rel h ev) (startPos s)) = map fst P"
    using assms unfolding P_def consistent_def by (simp add: update_keys)
  have dist: "distinct (map fst P)"
    using assms unfolding P_def consistent_def by (simp add: distinct_update)
  have ne: "1 \<le> length P"
    unfolding P_def by (cases "map_set (pointerId ev) (with_type (rel h ev) (pointerType ev)) (pointers s)") simp_all
  show ?thesis
  proof (cases "2 \<le> length P")
    case True
    with False show ?thesis
      using down_second[OF _ _ P_def True] keys dist ne
      by (simp add: returned_def consistent_def dist_nonneg)
  next
    case F2: False
    with False show ?thesis
      using down_first[OF _ _ P_def F2] keys dist ne assms
      by (simp add: returned_def consistent_def)
  qed
qed

lemma move_cases:
  "state_after (onPointerMove h ev s) = s \<or>
   (\<exists>meta. map_get (pointers s) (pointerId ev) = Some meta \<and>
     (state_after (onPointerMove h ev s) =
        s \<lparr> pointers := map_set (pointerId ev) (with_type (rel h ev) (tr_type meta)) (pointers s) \<rparr>
      \<or> length (pointers s) = 1 \<and> \<not> transforming s \<and>
        state_after (onPointerMove h ev s) =
        s \<lparr> pointers := map_set (pointerId ev) (with_type (rel h ev) (tr_type meta)) (pointers s),
            dragging := True \<rparr>))"
  by (auto simp: onPointerMove_def returned_def threw_def Let_def length_update
      split: option.splits list.splits)

lemma update_present_keys:
  "map_of al k = Some v \<Longrightarrow> map fst (AList.update k w al) = map fst al"
  by (simp add: update_keys) (metis map_of_eq_None_iff option.distinct(1) image_set)

lemma update_present_length:
  "map_of al k = Some v \<Longrightarrow> length (AList.update k w al) = length al"
  using update_present_keys[of al k v w] by (metis length_map)

lemma consistent_move:
  assumes "consistent s" shows "consistent (state_after (onPointerMove h ev s))"
  using move_cases[of h ev s] assms
  by (auto simp: consistent_def update_present_keys update_present_length)

lemma consistent_up:
  assumes "consistent s" shows "consistent (state_after (onPointerUp h ev s))"
proof (cases "foamtree h")
  case False
  then show ?thesis using assms by (simp add: onPointerUp_def returned_def)
next
  case True
  define P where "P = map_delete (pointerId ev) (pointers s)"
  have keys: "map fst (map_delete (pointerId ev) (startPos s)) = map fst P"
    using assms unfolding P_def consistent_def by (simp add: delete_keys)
  have dist: "distinct (map fst P)"
    using assms unfolding P_def consistent_def by (simp add: distinct_delete)
  have le: "2 \<le> length P \<Longrightarrow> transforming s"
    using assms length_delete_le[of "pointerId ev" "pointers s"]
    unfolding P_def consistent_def by linarith
  show ?thesis
    using True keys dist le assms
    by (cases "P = []")
       (auto simp: onPointerUp_def returned_def Let_def consistent_def P_def[symmetric] Suc_le_eq)
qed

lemma consistent_wheel: "consistent s \<Longrightarrow> consistent (state_after (onWheel h ev s))"
  by (simp add: onWheel_def returned_def Let_def)

lemma consistent_dispatch: "consistent s \<Longrightarrow> consistent (state_after (dispatch s d))"
  by (cases d; cases "snd d")
     (auto simp: consistent_down consistent_move consistent_up consistent_wheel)

lemma consistent_final: "consistent s \<Longrightarrow> consistent (final s ds)"
  by (induction ds arbitrary: s) (simp_all add: consistent_dispatch)

section \<open>The tolerance test\<close>

lemma tol_iff:
  "TAP_TOLERANCE < dist_pt a b \<longleftrightarrow> 36 < (pt_x a - pt_x b)\<^sup>2 + (pt_y a - pt_y b)\<^sup>2"
proof -
  have six: "(6::real) = sqrt 36" by (simp add: real_sqrt_unique)
  have "(6 < sqrt x) = (36 < x)" for x :: real
    unfolding six by (rule real_sqrt_less_iff)
  then show ?thesis
    by (simp add: TAP_TOLERANCE_def dist_pt_def hypot_def Let_def)
qed

lemma tol_le_iff:
  "dist_pt a b \<le> TAP_TOLERANCE \<longleftrightarrow> (pt_x a - pt_x b)\<^sup>2 + (pt_y a - pt_y b)\<^sup>2 \<le> 36"
  using tol_iff[of a b] by linarith

lemma hypot_axis: "hypot x 0 = \<bar>x\<bar>"
  by (simp add: hypot_def)

lemma dist_zero: "dist_pt a b = 0 \<longleftrightarrow> pt_x a = pt_x b \<and> pt_y a = pt_y b"
  by (simp add: dist_pt_def hypot_def Let_def sum_power2_eq_zero_iff)

section \<open>Where \<open>dragging\<close> is switched on\<close>




section \<open>A single pointer\<close>

lemma final_append: "final s (xs @ ys) = final (final s xs) ys"
  by (induction xs arbitrary: s) simp_all

lemma trace_append: "trace s (xs @ ys) = trace s xs @ trace (final s xs) ys"
  by (induction xs arbitrary: s) simp_all

lemma keys_single: "map fst al = [i] \<longleftrightarrow> (\<exists>t. al = [(i, t)])"
  by (cases al) auto

lemma down_tracking:
  assumes "idle s" "foamtree h" "\<not> (pointerType ev = ''mouse'' \<and> button ev \<noteq> 0)"
  shows "emitted (onPointerDown h ev s) = [] \<and>
         tracking_one (pointerId ev) (rel h ev) (state_after (onPointerDown h ev s))"
  using assms by (auto simp: idle_def tracking_one_def onPointerDown_def returned_def Let_def)

lemma move_within:
  assumes "tracking_one i p0 s" "pointerId m = i" "dist_pt (rel h m) p0 \<le> TAP_TOLERANCE"
  shows "emitted (onPointerMove h m s) = [] \<and> tracking_one i p0 (state_after (onPointerMove h m s))"
  using assms
  by (auto simp: tracking_one_def keys_single onPointerMove_def returned_def Let_def)

lemma move_cross:
  assumes "tracking_one i p0 s" "pointerId m = i" "foamtree h"
    "TAP_TOLERANCE < dist_pt (rel h m) p0"
  shows "emitted (onPointerMove h m s) = [(''dragstart'', plain (rel h m)), (''drag'', plain (rel h m))] \<and>
         drag_phase i (state_after (onPointerMove h m s))"
  using assms
  by (auto simp: tracking_one_def drag_phase_def keys_single onPointerMove_def returned_def Let_def)

lemma move_drag:
  assumes "drag_phase i s" "pointerId m = i" "foamtree h"
  shows "emitted (onPointerMove h m s) = [(''drag'', plain (rel h m))] \<and>
         drag_phase i (state_after (onPointerMove h m s))"
  using assms
  by (auto simp: drag_phase_def keys_single onPointerMove_def returned_def Let_def)

lemma up_drag:
  assumes "drag_phase i s" "pointerId ev = i" "foamtree h"
  shows "emitted (onPointerUp h ev s) = [(''dragend'', plain (rel h ev))] \<and>
         idle (state_after (onPointerUp h ev s))"
  using assms
  by (auto simp: drag_phase_def idle_def keys_single onPointerUp_def returned_def Let_def)

lemma up_tracking:
  assumes "tracking_one i p0 s \<or> idle s" "pointerId ev = i" "foamtree h"
  shows "emitted (onPointerUp h ev s) = [(''click'', plain (rel h ev))] \<and>
         idle (state_after (onPointerUp h ev s))"
  using assms
  by (auto simp: tracking_one_def idle_def keys_single onPointerUp_def returned_def Let_def)

lemma move_idle: "idle s \<Longrightarrow> onPointerMove h m s = returned s []"
  by (simp add: idle_def onPointerMove_def)

lemma down_tap:
  assumes "idle s"
  shows "emitted (onPointerDown h ev s) = [] \<and>
         (tracking_one (pointerId ev) (rel h ev) (state_after (onPointerDown h ev s)) \<or>
          idle (state_after (onPointerDown h ev s)))"
proof (cases "\<not> foamtree h \<or> (pointerType ev = ''mouse'' \<and> button ev \<noteq> 0)")
  case True
  then show ?thesis using assms by (simp add: down_ignored returned_def)
next
  case False
  then show ?thesis using down_tracking[OF assms, of h ev] by simp
qed

lemma moves_within:
  assumes "tracking_one i p0 s \<or> idle s"
    "\<forall>(h, m) \<in> set ms. pointerId m = i \<and> dist_pt (rel h m) p0 \<le> TAP_TOLERANCE"
  shows "trace s (moves ms) = [] \<and>
         (tracking_one i p0 (final s (moves ms)) \<or> idle (final s (moves ms)))"
  using assms
proof (induction ms arbitrary: s)
  case Nil
  then show ?case by (simp add: moves_def)
next
  case (Cons x ms)
  obtain h m where x: "x = (h, m)" by (cases x)
  have step: "emitted (onPointerMove h m s) = [] \<and>
     (tracking_one i p0 (state_after (onPointerMove h m s)) \<or> idle (state_after (onPointerMove h m s)))"
    using Cons.prems x move_within[of i p0 s m h] move_idle[of s h m]
    by (auto simp: returned_def)
  have "trace (state_after (onPointerMove h m s)) (moves ms) = [] \<and>
     (tracking_one i p0 (final (state_after (onPointerMove h m s)) (moves ms)) \<or>
      idle (final (state_after (onPointerMove h m s)) (moves ms)))"
    using Cons.IH[of "state_after (onPointerMove h m s)"] step Cons.prems(2) by simp
  with step x show ?case by (simp add: moves_def)
qed

lemma moves_drag:
  assumes "drag_phase i s" "\<forall>(h, m) \<in> set ms. foamtree h \<and> pointerId m = i"
  shows "trace s (moves ms) = map (\<lambda>(h, m). (''drag'', plain (rel h m))) ms \<and>
         drag_phase i (final s (moves ms))"
  using assms
proof (induction ms arbitrary: s)
  case Nil
  then show ?case by (simp add: moves_def)
next
  case (Cons x ms)
  obtain h m where x: "x = (h, m)" by (cases x)
  have step: "emitted (onPointerMove h m s) = [(''drag'', plain (rel h m))] \<and>
         drag_phase i (state_after (onPointerMove h m s))"
    using Cons.prems x move_drag[of i s m h] by simp
  have "trace (state_after (onPointerMove h m s)) (moves ms) =
          map (\<lambda>(h, m). (''drag'', plain (rel h m))) ms \<and>
        drag_phase i (final (state_after (onPointerMove h m s)) (moves ms))"
    using Cons.IH[of "state_after (onPointerMove h m s)"] step Cons.prems(2) by simp
  with step x show ?case by (simp add: moves_def)
qed

lemma moves_append: "moves (xs @ ys) = moves xs @ moves ys"
  by (simp add: moves_def)

lemma moves_Cons: "moves ((h, m) # xs) = (h, PointerMove m) # moves xs"
  by (simp add: moves_def)

lemma moves_tracking:
  assumes "tracking_one i p0 s"
    "\<forall>(h, m) \<in> set ms. pointerId m = i \<and> dist_pt (rel h m) p0 \<le> TAP_TOLERANCE"
  shows "trace s (moves ms) = [] \<and> tracking_one i p0 (final s (moves ms))"
  using assms
proof (induction ms arbitrary: s)
  case Nil
  then show ?case by (simp add: moves_def)
next
  case (Cons x ms)
  obtain h m where x: "x = (h, m)" by (cases x)
  have step: "emitted (onPointerMove h m s) = [] \<and>
     tracking_one i p0 (state_after (onPointerMove h m s))"
    using Cons.prems x move_within[of i p0 s m h] by simp
  have "trace (state_after (onPointerMove h m s)) (moves ms) = [] \<and>
     tracking_one i p0 (final (state_after (onPointerMove h m s)) (moves ms))"
    using Cons.IH[of "state_after (onPointerMove h m s)"] step Cons.prems(2) by simp
  with step x show ?case by (simp add: moves_def)
qed

section \<open>Two pointers\<close>

lemma xy_of_with_type: "xy_of (with_type p ty) = p"
  by (simp add: xy_of_def with_type_def)

lemma down_two:
  assumes "pointers s = [(i, t)]" "foamtree h"
    "\<not> (pointerType ev = ''mouse'' \<and> button ev \<noteq> 0)" "pointerId ev \<noteq> i"
  shows "onPointerDown h ev s =
     returned (s \<lparr> pointers := [(i, t), (pointerId ev, with_type (rel h ev) (pointerType ev))],
                   startPos := map_set (pointerId ev) (rel h ev) (startPos s),
                   baseDist := dist_pt (xy_of t) (rel h ev),
                   transforming := True \<rparr>)
              [(''transformstart'', secondary (xy_of t))]"
  using assms by (auto simp: onPointerDown_def Let_def xy_of_with_type)

lemma move_two:
  assumes "map fst (pointers s) = [i, j]" "i \<noteq> j" "foamtree h"
    "pointerId m = i \<or> pointerId m = j"
  shows "\<exists>t1 t2.
     onPointerMove h m s =
       returned (s \<lparr> pointers := [(i, t1), (j, t2)] \<rparr>)
         [(''transform'', scaled (xy_of t1) (js_div (dist_pt (xy_of t1) (xy_of t2)) (baseDist s)))] \<and>
     (pointerId m = i \<longrightarrow> xy_of t1 = rel h m) \<and>
     (pointerId m = j \<longrightarrow> xy_of t2 = rel h m)"
proof -
  obtain a b where ab: "pointers s = [(i, a), (j, b)]"
    using assms(1) by (cases "pointers s"; cases "tl (pointers s)") auto
  show ?thesis
  proof (cases "pointerId m = i")
    case True
    have "onPointerMove h m s =
       returned (s \<lparr> pointers := [(i, with_type (rel h m) (tr_type a)), (j, b)] \<rparr>)
         [(''transform'', scaled (xy_of (with_type (rel h m) (tr_type a)))
            (js_div (dist_pt (xy_of (with_type (rel h m) (tr_type a))) (xy_of b)) (baseDist s)))]"
      using assms(2,3) ab True by (simp add: onPointerMove_def Let_def)
    then show ?thesis
      using True assms(2) xy_of_with_type by blast
  next
    case False
    then have j: "pointerId m = j" using assms(4) by simp
    have "onPointerMove h m s =
       returned (s \<lparr> pointers := [(i, a), (j, with_type (rel h m) (tr_type b))] \<rparr>)
         [(''transform'', scaled (xy_of a)
            (js_div (dist_pt (xy_of a) (xy_of (with_type (rel h m) (tr_type b)))) (baseDist s)))]"
      using assms(2,3) ab j by (simp add: onPointerMove_def Let_def)
    then show ?thesis
      using False j xy_of_with_type by blast
  qed
qed

lemma move_keeps:
  "map fst (pointers (state_after (onPointerMove h m s))) = map fst (pointers s) \<and>
   baseDist (state_after (onPointerMove h m s)) = baseDist s"
  using move_cases[of h m s] by (auto simp: update_present_keys)

lemma moves_keep:
  "map fst (pointers (final s (moves ms))) = map fst (pointers s) \<and>
   baseDist (final s (moves ms)) = baseDist s"
proof (induction ms arbitrary: s)
  case Nil
  then show ?case by (simp add: moves_def)
next
  case (Cons x ms)
  obtain h m where x: "x = (h, m)" by (cases x)
  show ?case
    using Cons.IH[of "state_after (onPointerMove h m s)"] move_keeps[of h m s] x
    by (simp add: moves_Cons)
qed

lemma two_pointer_move:
  assumes "pointers s = [(i, t)]" and "foamtree h2"
    and "\<not> (pointerType ev2 = ''mouse'' \<and> button ev2 \<noteq> 0)" and "pointerId ev2 \<noteq> i"
    and "s2 = state_after (onPointerDown h2 ev2 s)"
    and "s3 = final s2 (moves ms)"
    and "foamtree h" and "pointerId m = i \<or> pointerId m = pointerId ev2"
  shows "baseDist s3 = dist_pt (xy_of t) (rel h2 ev2) \<and>
     (\<exists>t1 t2.
       pointers (state_after (onPointerMove h m s3)) = [(i, t1), (pointerId ev2, t2)] \<and>
       (pointerId m = i \<longrightarrow> xy_of t1 = rel h m) \<and>
       (pointerId m = pointerId ev2 \<longrightarrow> xy_of t2 = rel h m) \<and>
       emitted (onPointerMove h m s3) =
         [(''transform'',
           scaled (xy_of t1)
             (js_div (dist_pt (xy_of t1) (xy_of t2)) (dist_pt (xy_of t) (rel h2 ev2))))])"
proof -
  have s2: "map fst (pointers s2) = [i, pointerId ev2]"
    "baseDist s2 = dist_pt (xy_of t) (rel h2 ev2)"
    unfolding assms(5) down_two[OF assms(1-4)] by (simp_all add: returned_def)
  have s3: "map fst (pointers s3) = [i, pointerId ev2]"
    "baseDist s3 = dist_pt (xy_of t) (rel h2 ev2)"
    using moves_keep[of s2 ms] s2 unfolding assms(6) by simp_all
  from move_two[OF s3(1) assms(4)[symmetric] assms(7) assms(8)]
  obtain t1 t2 where
    mv: "onPointerMove h m s3 =
       returned (s3 \<lparr> pointers := [(i, t1), (pointerId ev2, t2)] \<rparr>)
         [(''transform'', scaled (xy_of t1) (js_div (dist_pt (xy_of t1) (xy_of t2)) (baseDist s3)))]"
    and p1: "pointerId m = i \<longrightarrow> xy_of t1 = rel h m"
    and p2: "pointerId m = pointerId ev2 \<longrightarrow> xy_of t2 = rel h m"
    by blast
  show ?thesis
    using s3(2) p1 p2 unfolding mv by (simp add: returned_def)
qed

section \<open>Re-clustering with a cached graph\<close>

lemma clusterResults_cached:
  "simGraph s = Some g \<Longrightarrow>
     clusterResults L pr s = (s \<lparr> clusters := build_clusters L pr g (sliderSim s) \<rparr>, [])"
  by (simp add: clusterResults_def)

lemma slide_cached:
  assumes "simGraph s = Some g"
  shows "snd (slide L pr v s) = [] \<and> simGraph (fst (slide L pr v s)) = Some g \<and>
         minFoundSim (fst (slide L pr v s)) = minFoundSim s \<and>
         maxFoundSim (fst (slide L pr v s)) = maxFoundSim s"
  using assms by (simp add: slide_def watch_sliderSim_def clusterResults_cached)

lemma slides_cached:
  assumes "simGraph s = Some g"
  shows "snd (slides L pr s vs) = [] \<and> simGraph (fst (slides L pr s vs)) = Some g \<and>
         minFoundSim (fst (slides L pr s vs)) = minFoundSim s \<and>
         maxFoundSim (fst (slides L pr s vs)) = maxFoundSim s"
  using assms
proof (induction vs arbitrary: s)
  case Nil
  then show ?case by simp
next
  case (Cons v vs)
  obtain s1 out1 where s1: "slide L pr v s = (s1, out1)" by (cases "slide L pr v s")
  obtain s2 out2 where s2: "slides L pr s1 vs = (s2, out2)" by (cases "slides L pr s1 vs")
  have one: "out1 = [] \<and> simGraph s1 = Some g \<and> minFoundSim s1 = minFoundSim s \<and>
      maxFoundSim s1 = maxFoundSim s"
    using slide_cached[OF Cons.prems, of L pr v] s1 by simp
  then have "out2 = [] \<and> simGraph s2 = Some g \<and> minFoundSim s2 = minFoundSim s1 \<and>
      maxFoundSim s2 = maxFoundSim s1"
    using Cons.IH[of s1] s2 by simp
  with one s1 s2 show ?case by simp
qed

section \<open>Running the handlers on concrete events\<close>

lemmas run_simps = attached_def touch_def mouse_def wheel_def init_state_def moves_def
  onPointerDown_def onPointerMove_def onPointerUp_def onWheel_def rel_def returned_def threw_def
  with_type_def xy_of_def plain_def secondary_def scaled_def Let_def tol_iff tol_le_iff
  idle_def names_def

lemmas scale_simps = dist_pt_def hypot_axis js_div_def

section \<open>No handler throws in a reachable state\<close>

lemma down_no_throw: "thrown (onPointerDown h ev s) = None"
proof (cases "\<not> foamtree h \<or> (pointerType ev = ''mouse'' \<and> button ev \<noteq> 0)")
  case True
  then show ?thesis by (simp add: down_ignored returned_def)
next
  case False
  define P where "P = map_set (pointerId ev) (with_type (rel h ev) (pointerType ev)) (pointers s)"
  show ?thesis
  proof (cases "2 \<le> length P")
    case True
    with False show ?thesis
      using down_second[OF _ _ P_def True] by (simp add: returned_def)
  next
    case F2: False
    with False show ?thesis
      using down_first[OF _ _ P_def F2] by (simp add: returned_def)
  qed
qed

lemma same_keys_lookup:
  assumes "map fst al = map fst bl" "map_of bl k = Some v"
  shows "\<exists>w. map_of al k = Some w"
proof -
  have "k \<in> set (map fst bl)"
    using assms(2) by (metis map_of_eq_None_iff option.distinct(1) image_set)
  then have "k \<in> fst ` set al"
    using assms(1) by (metis image_set)
  then show ?thesis
    by (metis map_of_eq_None_iff not_Some_eq)
qed

lemma move_no_throw:
  assumes "consistent s"
  shows "thrown (onPointerMove h ev s) = None"
proof (cases "foamtree h")
  case False
  then show ?thesis by (simp add: onPointerMove_def returned_def)
next
  case ft: True
  show ?thesis
  proof (cases "map_get (pointers s) (pointerId ev)")
    case None
    then show ?thesis using ft by (simp add: onPointerMove_def returned_def)
  next
    case (Some meta)
    obtain st where st: "map_get (startPos s) (pointerId ev) = Some st"
      using same_keys_lookup[of "startPos s" "pointers s" "pointerId ev" meta] assms Some
      by (auto simp: consistent_def)
    define P where "P = map_set (pointerId ev) (with_type (rel h ev) (tr_type meta)) (pointers s)"
    have two: "length P = 2 \<Longrightarrow> \<exists>a b. map snd P = [a, b]"
      by (cases P; cases "tl P") auto
    show ?thesis
      using ft Some st two
      by (auto simp: onPointerMove_def returned_def threw_def Let_def P_def[symmetric])
  qed
qed

lemma dispatch_no_throw: "consistent s \<Longrightarrow> thrown (dispatch s d) = None"
  by (cases d; cases "snd d")
     (auto simp: down_no_throw move_no_throw onPointerUp_def onWheel_def returned_def Let_def)

lemma errors_consistent: "consistent s \<Longrightarrow> errors s ds = []"
  by (induction ds arbitrary: s) (simp_all add: dispatch_no_throw consistent_dispatch)

lemma errors_reachable: "errors init_state ds = []"
  by (rule errors_consistent[OF consistent_init])

section \<open>The claims\<close>

subsection \<open>Claim C1: the gesture flags in reachable states\<close>




subsection \<open>Claim C2: a tap is one click\<close>

text \<open>
  Claim C2: from the idle state, a pointer's down, any number of moves of that pointer that
  stay within \<open>TAP_TOLERANCE\<close> (six units) of where it went down, and its up, delivered
  to a rendering instance, trigger exactly one gesture: a \<open>click\<close> at the position of
  the up event, which is the last position of the pointer. No \<open>dragstart\<close>, \<open>drag\<close>
  or \<open>dragend\<close> is triggered, and the state is idle again.
\<close>

theorem tap_emits_one_click:
  assumes "idle s" and "foamtree hu" and "pointerId evu = pointerId ev0"
    and "\<forall>(h, m) \<in> set ms. pointerId m = pointerId ev0 \<and>
           dist_pt (rel h m) (rel h0 ev0) \<le> TAP_TOLERANCE"
  shows "trace s ((h0, PointerDown ev0) # moves ms @ [(hu, PointerUp evu)])
           = [(''click'', plain (rel hu evu))] \<and>
         idle (final s ((h0, PointerDown ev0) # moves ms @ [(hu, PointerUp evu)]))"
proof -
  define s1 where "s1 = state_after (onPointerDown h0 ev0 s)"
  define s2 where "s2 = final s1 (moves ms)"
  have d: "emitted (onPointerDown h0 ev0 s) = []"
    and t1: "tracking_one (pointerId ev0) (rel h0 ev0) s1 \<or> idle s1"
    using down_tap[OF assms(1), of h0 ev0] by (simp_all add: s1_def)
  have m: "trace s1 (moves ms) = []"
    and t2: "tracking_one (pointerId ev0) (rel h0 ev0) s2 \<or> idle s2"
    using moves_within[OF t1 assms(4)] by (simp_all add: s2_def)
  have u: "emitted (onPointerUp hu evu s2) = [(''click'', plain (rel hu evu))]"
    and i: "idle (state_after (onPointerUp hu evu s2))"
    using up_tracking[OF t2 assms(3) assms(2)] by simp_all
  show ?thesis
    using d m u i by (simp add: trace_append final_append s1_def[symmetric] s2_def[symmetric])
qed

text \<open>
  Down at (10, 10), a move to (12, 11), up at (12, 11): one click at (12, 11).
\<close>

theorem tap_emits_one_click_witness:
  "trace init_state ((attached, PointerDown (touch 1 10 10))
      # moves [(attached, touch 1 12 11)] @ [(attached, PointerUp (touch 1 12 11))])
     = [(''click'', plain \<lparr> pt_x = 12, pt_y = 11 \<rparr>)]"
proof -
  have h1: "idle init_state" by (simp add: idle_def init_state_def)
  have h2: "foamtree attached" by (simp add: attached_def)
  have h3: "pointerId (touch 1 12 11) = pointerId (touch 1 10 10)" by (simp add: touch_def)
  have h4: "\<forall>(h, m) \<in> set [(attached, touch 1 12 11)].
      pointerId m = pointerId (touch 1 10 10) \<and>
      dist_pt (rel h m) (rel attached (touch 1 10 10)) \<le> TAP_TOLERANCE"
    by (simp add: touch_def attached_def rel_def tol_le_iff)
  from tap_emits_one_click[OF h1 h2 h3 h4] show ?thesis
    by (simp add: rel_def attached_def touch_def)
qed

subsection \<open>Claim C3: a drag is dragstart, drags, dragend\<close>

text \<open>
  Claim C3 says that every single-pointer sequence with a move beyond the tolerance triggers
  \<open>dragstart\<close> before any \<open>drag\<close>, exactly one \<open>dragend\<close> on release, and no
  \<open>click\<close>. That holds for a pointer the translator tracks, a touch or the mouse with
  its primary button; a press of another mouse button is not tracked, so its moves trigger
  nothing. For a tracked pointer: from the idle state, with a rendering instance
  throughout, the pointer goes down, moves, with at least one move farther than
  \<open>TAP_TOLERANCE\<close> from where it went down, and goes up. With \<open>rest\<close> the moves from
  the first one that leaves the tolerance, the gestures triggered are \<open>dragstart\<close> at
  that move, one \<open>drag\<close> for each move of \<open>rest\<close>, and \<open>dragend\<close> at the up
  event. So no \<open>drag\<close> precedes the \<open>dragstart\<close>, there is exactly one
  \<open>dragend\<close>, it is the last gesture, and there is no \<open>click\<close>.
\<close>

theorem drag_emits_start_moves_end:
  assumes "idle s" and "foamtree h0"
    and "\<not> (pointerType ev0 = ''mouse'' \<and> button ev0 \<noteq> 0)"
    and "\<forall>(h, m) \<in> set ms. foamtree h \<and> pointerId m = pointerId ev0"
    and "\<exists>(h, m) \<in> set ms. TAP_TOLERANCE < dist_pt (rel h m) (rel h0 ev0)"
    and "foamtree hu" and "pointerId evu = pointerId ev0"
    and "tr = trace s ((h0, PointerDown ev0) # moves ms @ [(hu, PointerUp evu)])"
    and "rest = dropWhile (\<lambda>(h, m). dist_pt (rel h m) (rel h0 ev0) \<le> TAP_TOLERANCE) ms"
  shows "tr = (''dragstart'', plain (rel (fst (hd rest)) (snd (hd rest))))
               # map (\<lambda>(h, m). (''drag'', plain (rel h m))) rest
               @ [(''dragend'', plain (rel hu evu))] \<and>
         rest \<noteq> [] \<and>
         ''drag'' \<notin> set (takeWhile (\<lambda>n. n \<noteq> ''dragstart'') (names tr)) \<and>
         count_list (names tr) ''dragend'' = 1 \<and>
         last tr = (''dragend'', plain (rel hu evu)) \<and>
         ''click'' \<notin> set (names tr) \<and>
         idle (final s ((h0, PointerDown ev0) # moves ms @ [(hu, PointerUp evu)]))"
proof -
  define near :: "host \<times> pointer_event \<Rightarrow> bool" where
    "near = (\<lambda>(h, m). dist_pt (rel h m) (rel h0 ev0) \<le> TAP_TOLERANCE)"
  define pre where "pre = takeWhile near ms"
  have rest: "rest = dropWhile near ms"
    using assms(9) by (simp add: near_def)
  have ms: "ms = pre @ rest"
    by (simp add: pre_def rest)
  have ne: "rest \<noteq> []"
    using assms(5) unfolding rest near_def by (fastforce simp: dropWhile_eq_Nil_conv)
  then obtain hm m post where r: "rest = (hm, m) # post"
    by (cases rest) auto
  have cross: "TAP_TOLERANCE < dist_pt (rel hm m) (rel h0 ev0)"
  proof -
    have "\<not> near (hd rest)"
      using hd_dropWhile[of near ms] ne unfolding rest by blast
    then show ?thesis
      unfolding r near_def by simp
  qed
  have sub_pre: "set pre \<subseteq> set ms" and sub_rest: "set rest \<subseteq> set ms"
    unfolding pre_def rest by (auto dest: set_takeWhileD set_dropWhileD)
  have all_ms: "foamtree h \<and> pointerId e = pointerId ev0" if "(h, e) \<in> set ms" for h e
    using assms(4) that by blast
  have pre_in: "\<forall>(h, m) \<in> set pre. pointerId m = pointerId ev0 \<and>
      dist_pt (rel h m) (rel h0 ev0) \<le> TAP_TOLERANCE"
  proof (intro ballI, clarify)
    fix h e assume in_pre: "(h, e) \<in> set pre"
    then have "near (h, e)"
      unfolding pre_def by (rule set_takeWhileD[THEN conjunct2])
    moreover have "(h, e) \<in> set ms" using in_pre sub_pre by blast
    ultimately show "pointerId e = pointerId ev0 \<and>
      dist_pt (rel h e) (rel h0 ev0) \<le> TAP_TOLERANCE"
      using all_ms[of h e] by (simp add: near_def)
  qed
  have m_in: "foamtree hm \<and> pointerId m = pointerId ev0"
    using all_ms[of hm m] sub_rest r by simp
  have post_in: "\<forall>(h, m) \<in> set post. foamtree h \<and> pointerId m = pointerId ev0"
  proof (intro ballI, clarify)
    fix h e assume "(h, e) \<in> set post"
    then have "(h, e) \<in> set ms" using sub_rest r by auto
    then show "foamtree h \<and> pointerId e = pointerId ev0" by (rule all_ms)
  qed
  define s1 where "s1 = state_after (onPointerDown h0 ev0 s)"
  define s2 where "s2 = final s1 (moves pre)"
  define s3 where "s3 = state_after (onPointerMove hm m s2)"
  define s4 where "s4 = final s3 (moves post)"
  have d: "emitted (onPointerDown h0 ev0 s) = []"
    and t1: "tracking_one (pointerId ev0) (rel h0 ev0) s1"
    using down_tracking[OF assms(1-3)] by (simp_all add: s1_def)
  have e2: "trace s1 (moves pre) = []"
    and t2: "tracking_one (pointerId ev0) (rel h0 ev0) s2"
    using moves_tracking[OF t1 pre_in] by (simp_all add: s2_def)
  have e3: "emitted (onPointerMove hm m s2) =
      [(''dragstart'', plain (rel hm m)), (''drag'', plain (rel hm m))]"
    and t3: "drag_phase (pointerId ev0) s3"
    using move_cross[OF t2 _ _ cross] m_in by (simp_all add: s3_def)
  have e4: "trace s3 (moves post) = map (\<lambda>(h, m). (''drag'', plain (rel h m))) post"
    and t4: "drag_phase (pointerId ev0) s4"
    using moves_drag[OF t3 post_in] by (simp_all add: s4_def)
  have e5: "emitted (onPointerUp hu evu s4) = [(''dragend'', plain (rel hu evu))]"
    and t5: "idle (state_after (onPointerUp hu evu s4))"
    using up_drag[OF t4 assms(7) assms(6)] by simp_all
  have tr: "tr = (''dragstart'', plain (rel hm m))
               # map (\<lambda>(h, m). (''drag'', plain (rel h m))) rest
               @ [(''dragend'', plain (rel hu evu))]"
    using d e2 e3 e4 e5 unfolding assms(8) ms r
    by (simp add: trace_append final_append moves_append moves_Cons
        s1_def[symmetric] s2_def[symmetric] s3_def[symmetric] s4_def[symmetric])
  have fin: "idle (final s ((h0, PointerDown ev0) # moves ms @ [(hu, PointerUp evu)]))"
    using t5 unfolding ms r
    by (simp add: final_append moves_append moves_Cons
        s1_def[symmetric] s2_def[symmetric] s3_def[symmetric] s4_def[symmetric])
  have nm: "names tr = ''dragstart'' # map (\<lambda>x. ''drag'') rest @ [''dragend'']"
    unfolding tr names_def by (simp add: case_prod_unfold comp_def)
  have c1: "''drag'' \<notin> set (takeWhile (\<lambda>n. n \<noteq> ''dragstart'') (names tr))"
    unfolding nm by simp
  have c2: "count_list (names tr) ''dragend'' = 1"
    unfolding nm by (induction rest) simp_all
  have c3: "last tr = (''dragend'', plain (rel hu evu))"
    unfolding tr by simp
  have c4: "''click'' \<notin> set (names tr)"
    unfolding nm by auto
  show ?thesis
    using tr ne c1 c2 c3 c4 fin unfolding r by simp
qed

text \<open>
  Down at the origin, moves to (3, 0), (20, 0) and back to (2, 0), up at (2, 0).
\<close>

theorem drag_emits_start_moves_end_witness:
  "trace init_state ((attached, PointerDown (touch 1 0 0))
      # moves [(attached, touch 1 3 0), (attached, touch 1 20 0), (attached, touch 1 2 0)]
      @ [(attached, PointerUp (touch 1 2 0))])
     = [(''dragstart'', plain \<lparr> pt_x = 20, pt_y = 0 \<rparr>),
        (''drag'', plain \<lparr> pt_x = 20, pt_y = 0 \<rparr>),
        (''drag'', plain \<lparr> pt_x = 2, pt_y = 0 \<rparr>),
        (''dragend'', plain \<lparr> pt_x = 2, pt_y = 0 \<rparr>)]"
proof -
  have h1: "idle init_state" by (simp add: idle_def init_state_def)
  have h2: "foamtree attached" by (simp add: attached_def)
  have h3: "\<not> (pointerType (touch 1 0 0) = ''mouse'' \<and> button (touch 1 0 0) \<noteq> 0)"
    by (simp add: touch_def)
  have h4: "\<forall>(h, m) \<in> set [(attached, touch 1 3 0), (attached, touch 1 20 0), (attached, touch 1 2 0)].
      foamtree h \<and> pointerId m = pointerId (touch 1 0 0)"
    by (simp add: touch_def attached_def)
  have h5: "\<exists>(h, m) \<in> set [(attached, touch 1 3 0), (attached, touch 1 20 0), (attached, touch 1 2 0)].
      TAP_TOLERANCE < dist_pt (rel h m) (rel attached (touch 1 0 0))"
    by (simp add: touch_def attached_def rel_def tol_iff)
  have h7: "pointerId (touch 1 2 0) = pointerId (touch 1 0 0)" by (simp add: touch_def)
  from drag_emits_start_moves_end[OF h1 h2 h3 h4 h5 h2 h7 refl refl] show ?thesis
    by (simp add: rel_def attached_def touch_def tol_le_iff)
qed

text \<open>
  The mouse goes down with its secondary button, moves twenty units and is released: the
  press is not tracked, the move triggers nothing, and the release triggers a \<open>click\<close>.
\<close>

theorem secondary_button_drag_is_a_click:
  "TAP_TOLERANCE < dist_pt (rel attached (mouse (-1) 20 0)) (rel attached (mouse 2 0 0)) \<and>
   trace init_state ((attached, PointerDown (mouse 2 0 0))
      # moves [(attached, mouse (-1) 20 0)] @ [(attached, PointerUp (mouse 2 20 0))])
     = [(''click'', plain \<lparr> pt_x = 20, pt_y = 0 \<rparr>)]"
  by (simp add: run_simps)

subsection \<open>Claim C4: a second pointer starts a transform\<close>

text \<open>
  Claim C4 says that a second pointer going down triggers \<open>transformstart\<close> before any
  \<open>transform\<close>, and that the scale reported at that moment is 1.0. The first half holds
  for a second pointer the translator tracks, a touch or the mouse with its primary button
  (a press of another mouse button is ignored by \<open>onPointerDown\<close>): with one pointer
  tracked and a rendering instance, the down of another such pointer triggers exactly
  \<open>transformstart\<close>, at the position of the first pointer, before anything that follows.
  The second half holds with two amendments: the payload of \<open>transformstart\<close> has no
  scale; and the scale of a \<open>transform\<close> for unchanged positions, the baseline divided
  by itself, is 1 when the two pointers are at different positions, and \<open>NaN\<close> when they
  coincide, since the division is not guarded.
\<close>

theorem second_pointer_starts_transform:
  assumes "pointers s = [(i, t)]" and "foamtree h"
    and "\<not> (pointerType ev = ''mouse'' \<and> button ev \<noteq> 0)" and "pointerId ev \<noteq> i"
    and "s2 = state_after (onPointerDown h ev s)"
    and "foamtree h'" and "pointerId m = pointerId ev" and "rel h' m = rel h ev"
  shows "trace s ((h, PointerDown ev) # ds) =
           (''transformstart'', secondary (xy_of t)) # trace s2 ds \<and>
         pl_scale (secondary (xy_of t)) = None \<and>
         transforming s2 \<and>
         baseDist s2 = dist_pt (xy_of t) (rel h ev) \<and>
         emitted (onPointerMove h' m s2) =
           [(''transform'', scaled (xy_of t) (js_div (baseDist s2) (baseDist s2)))] \<and>
         (xy_of t \<noteq> rel h ev \<longrightarrow> js_div (baseDist s2) (baseDist s2) = Num 1) \<and>
         (xy_of t = rel h ev \<longrightarrow> js_div (baseDist s2) (baseDist s2) = NaN)"
proof -
  note d = down_two[OF assms(1-4)]
  have s2: "pointers s2 = [(i, t), (pointerId ev, with_type (rel h ev) (pointerType ev))]"
    "baseDist s2 = dist_pt (xy_of t) (rel h ev)" "transforming s2"
    unfolding assms(5) d by (simp_all add: returned_def)
  have tr: "trace s ((h, PointerDown ev) # ds) =
           (''transformstart'', secondary (xy_of t)) # trace s2 ds"
    unfolding assms(5) by (simp add: d returned_def)
  have mv: "emitted (onPointerMove h' m s2) =
           [(''transform'', scaled (xy_of t) (js_div (baseDist s2) (baseDist s2)))]"
    using s2 assms(4,6,7,8)
    by (simp add: onPointerMove_def Let_def returned_def xy_of_with_type)
  have z: "(baseDist s2 = 0) = (xy_of t = rel h ev)"
    unfolding s2(2) dist_zero by (cases "xy_of t"; cases "rel h ev") simp
  have ps: "pl_scale (secondary (xy_of t)) = None"
    by (simp add: secondary_def)
  have one: "xy_of t \<noteq> rel h ev \<longrightarrow> js_div (baseDist s2) (baseDist s2) = Num 1"
    and nan: "xy_of t = rel h ev \<longrightarrow> js_div (baseDist s2) (baseDist s2) = NaN"
    using z by (simp_all add: js_div_def)
  show ?thesis
    using tr ps s2(2,3) mv one nan by blast
qed

text \<open>
  A first touch at the origin, a second at (5, 0), and a move of the second that leaves it
  where it is: \<open>transformstart\<close>, then \<open>transform\<close> with scale 1.
\<close>

theorem second_pointer_starts_transform_witness:
  "pointers (state_after (onPointerDown attached (touch 1 0 0) init_state))
     = [(1, with_type \<lparr> pt_x = 0, pt_y = 0 \<rparr> ''touch'')] \<and>
   trace (state_after (onPointerDown attached (touch 1 0 0) init_state))
     [(attached, PointerDown (touch 2 5 0)), (attached, PointerMove (touch 2 5 0))]
     = [(''transformstart'', secondary \<lparr> pt_x = 0, pt_y = 0 \<rparr>),
        (''transform'', scaled \<lparr> pt_x = 0, pt_y = 0 \<rparr> (Num 1))]"
proof -
  have h1: "pointers (state_after (onPointerDown attached (touch 1 0 0) init_state))
     = [(1, with_type \<lparr> pt_x = 0, pt_y = 0 \<rparr> ''touch'')]"
    by (simp add: run_simps)
  have h2: "foamtree attached" by (simp add: attached_def)
  have h3: "\<not> (pointerType (touch 2 5 0) = ''mouse'' \<and> button (touch 2 5 0) \<noteq> 0)"
    by (simp add: touch_def)
  have h4: "pointerId (touch 2 5 0) \<noteq> 1" by (simp add: touch_def)
  have ne: "xy_of (with_type \<lparr> pt_x = 0, pt_y = 0 \<rparr> ''touch'') \<noteq> rel attached (touch 2 5 0)"
    by (simp add: run_simps)
  from second_pointer_starts_transform[OF h1 h2 h3 h4 refl h2 refl refl,
      of "[(attached, PointerMove (touch 2 5 0))]"] ne h1
  show ?thesis
    by (simp add: run_simps scale_simps)
qed

text \<open>
  Both touches at the origin: \<open>transformstart\<close> carries no scale, and the
  \<open>transform\<close> for the unchanged positions carries \<open>NaN\<close>, not 1. And with a touch
  tracked, a press of the secondary mouse button triggers nothing and is not tracked.
\<close>

theorem second_pointer_counterexamples:
  "map (\<lambda>g. (fst g, pl_scale (snd g)))
     (trace init_state
        [(attached, PointerDown (touch 1 0 0)), (attached, PointerDown (touch 2 0 0)),
         (attached, PointerMove (touch 2 0 0))])
   = [(''transformstart'', None), (''transform'', Some NaN)] \<and>
   map fst (pointers (final init_state [(attached, PointerDown (touch 7 0 0))])) = [7] \<and>
   trace (final init_state [(attached, PointerDown (touch 7 0 0))])
     [(attached, PointerDown (mouse 2 5 0))] = [] \<and>
   map fst (pointers (final init_state
     [(attached, PointerDown (touch 7 0 0)), (attached, PointerDown (mouse 2 5 0))])) = [7]"
  by (simp add: run_simps dist_pt_def hypot_def js_div_def)

subsection \<open>Claim C5: the scale of a two-pointer move\<close>

text \<open>
  Claim C5: one pointer is tracked and a second goes down, which records the distance
  between the two as \<open>baseDist\<close>. After any number of pointer moves, a move of either of
  the two pointers, with a rendering instance, triggers exactly one gesture, a
  \<open>transform\<close> at the first pointer whose scale is the distance between the two stored
  positions, the moved one updated, divided by that baseline.
\<close>

theorem two_pointer_move_scale:
  assumes "pointers s = [(i, t)]" and "foamtree h2"
    and "\<not> (pointerType ev2 = ''mouse'' \<and> button ev2 \<noteq> 0)" and "pointerId ev2 \<noteq> i"
    and "s2 = state_after (onPointerDown h2 ev2 s)"
    and "s3 = final s2 (moves ms)"
    and "foamtree h" and "pointerId m = i \<or> pointerId m = pointerId ev2"
  shows "baseDist s2 = dist_pt (xy_of t) (rel h2 ev2) \<and>
     (\<exists>t1 t2.
       pointers (state_after (onPointerMove h m s3)) = [(i, t1), (pointerId ev2, t2)] \<and>
       (pointerId m = i \<longrightarrow> xy_of t1 = rel h m) \<and>
       (pointerId m = pointerId ev2 \<longrightarrow> xy_of t2 = rel h m) \<and>
       emitted (onPointerMove h m s3) =
         [(''transform'',
           scaled (xy_of t1) (js_div (dist_pt (xy_of t1) (xy_of t2)) (baseDist s2)))])"
proof -
  have "baseDist s2 = dist_pt (xy_of t) (rel h2 ev2)"
    unfolding assms(5) down_two[OF assms(1-4)] by (simp add: returned_def)
  then show ?thesis
    using two_pointer_move[OF assms] by simp
qed

text \<open>
  Touches at the origin and at (5, 0); the second moves to (10, 0): scale 2.
\<close>

theorem two_pointer_move_scale_witness:
  "pointers (state_after (onPointerDown attached (touch 1 0 0) init_state))
     = [(1, with_type \<lparr> pt_x = 0, pt_y = 0 \<rparr> ''touch'')] \<and>
   emitted (onPointerMove attached (touch 2 10 0)
      (final (state_after (onPointerDown attached (touch 2 5 0)
                (state_after (onPointerDown attached (touch 1 0 0) init_state))))
         (moves [(attached, touch 1 0 0)])))
     = [(''transform'', scaled \<lparr> pt_x = 0, pt_y = 0 \<rparr> (Num 2))]"
proof -
  have h1: "pointers (state_after (onPointerDown attached (touch 1 0 0) init_state))
     = [(1, with_type \<lparr> pt_x = 0, pt_y = 0 \<rparr> ''touch'')]"
    by (simp add: run_simps)
  have h2: "foamtree attached" by (simp add: attached_def)
  have h3: "\<not> (pointerType (touch 2 5 0) = ''mouse'' \<and> button (touch 2 5 0) \<noteq> 0)"
    by (simp add: touch_def)
  have h4: "pointerId (touch 2 5 0) \<noteq> 1" by (simp add: touch_def)
  have h8: "pointerId (touch 2 10 0) = 1 \<or> pointerId (touch 2 10 0) = pointerId (touch 2 5 0)"
    by (simp add: touch_def)
  from two_pointer_move_scale[OF h1 h2 h3 h4 refl refl h2 h8, of "[(attached, touch 1 0 0)]"] h1
  show ?thesis
    by (simp add: run_simps scale_simps)
qed

subsection \<open>Claim C6: non-primary mouse buttons\<close>

text \<open>
  Claim C6 says that a mouse event whose button is not the primary one tracks no pointer
  and triggers no gesture. \<open>onPointerDown\<close> has that test, under the comment
  \<open>Primary button only for mouse\<close>; \<open>onPointerUp\<close> has not. A press and release of
  the secondary button in the idle state tracks no pointer, and the release triggers a
  \<open>click\<close>.
\<close>

theorem secondary_button_release_clicks:
  "trace init_state [(attached, PointerDown (mouse 2 5 5)), (attached, PointerUp (mouse 2 5 5))]
     = [(''click'', plain \<lparr> pt_x = 5, pt_y = 5 \<rparr>)]"
  by (simp add: run_simps)

subsection \<open>Claim C7: a wheel event is one transform bracket\<close>

text \<open>
  Claim C7: with a rendering instance, a wheel event leaves the translator state as it is
  and triggers exactly \<open>transformstart\<close>, \<open>transform\<close> and \<open>transformend\<close> at
  the cursor position; the scale is 1.03 for a negative \<open>deltaY\<close> and 0.97 otherwise, so
  for every positive one. The gestures do not depend on the state, so nothing accumulates
  from one wheel event to the next.
\<close>

theorem wheel_emits_one_bracket:
  assumes "foamtree h"
  shows "state_after (onWheel h ev s) = s \<and> thrown (onWheel h ev s) = None \<and>
     emitted (onWheel h ev s) =
       [(''transformstart'', secondary (rel h ev)),
        (''transform'', scaled (rel h ev) (if deltaY ev < 0 then Num 1.03 else Num 0.97)),
        (''transformend'', secondary (rel h ev))] \<and>
     emitted (onWheel h ev s') = emitted (onWheel h ev s)"
  using assms by (simp add: onWheel_def returned_def Let_def)

text \<open>
  A wheel event with \<open>deltaY = -1\<close> and one with \<open>deltaY = 1\<close>, at (3, 4).
\<close>

theorem wheel_emits_one_bracket_witness:
  "emitted (onWheel attached (wheel (-1) 3 4) init_state) =
     [(''transformstart'', secondary \<lparr> pt_x = 3, pt_y = 4 \<rparr>),
      (''transform'', scaled \<lparr> pt_x = 3, pt_y = 4 \<rparr> (Num 1.03)),
      (''transformend'', secondary \<lparr> pt_x = 3, pt_y = 4 \<rparr>)] \<and>
   emitted (onWheel attached (wheel 1 3 4) init_state) =
     [(''transformstart'', secondary \<lparr> pt_x = 3, pt_y = 4 \<rparr>),
      (''transform'', scaled \<lparr> pt_x = 3, pt_y = 4 \<rparr> (Num 0.97)),
      (''transformend'', secondary \<lparr> pt_x = 3, pt_y = 4 \<rparr>)]"
proof -
  have h: "foamtree attached" by (simp add: attached_def)
  from wheel_emits_one_bracket[OF h, of "wheel (-1) 3 4" init_state init_state]
    wheel_emits_one_bracket[OF h, of "wheel 1 3 4" init_state init_state]
  show ?thesis
    by (simp add: rel_def attached_def wheel_def)
qed

subsection \<open>Claim C8: no pointer left means idle\<close>

text \<open>
  Claim C8: after any sequence of events from \<open>init_state\<close>, a state with no active
  pointer is idle: both Maps are empty and \<open>dragging\<close> and \<open>transforming\<close> are false.
  And \<open>pointercancel\<close> runs the handler of \<open>pointerup\<close>.
\<close>

theorem zero_pointers_is_idle:
  "(map_size (pointers (final init_state ds)) = 0 \<longrightarrow> idle (final init_state ds)) \<and>
   dispatch s (h, PointerCancel ev) = dispatch s (h, PointerUp ev)"
proof -
  have "consistent (final init_state ds)"
    by (rule consistent_final[OF consistent_init])
  then show ?thesis
    by (auto simp: consistent_def idle_def)
qed

text \<open>
  Two touches go down; one is released and the other cancelled.
\<close>

theorem zero_pointers_is_idle_witness:
  "map_size (pointers (final init_state
      [(attached, PointerDown (touch 1 0 0)), (attached, PointerDown (touch 2 5 0)),
       (attached, PointerUp (touch 1 0 0)), (attached, PointerCancel (touch 2 5 0))])) = 0 \<and>
   idle (final init_state
      [(attached, PointerDown (touch 1 0 0)), (attached, PointerDown (touch 2 5 0)),
       (attached, PointerUp (touch 1 0 0)), (attached, PointerCancel (touch 2 5 0))])"
proof -
  have h: "map_size (pointers (final init_state
      [(attached, PointerDown (touch 1 0 0)), (attached, PointerDown (touch 2 5 0)),
       (attached, PointerUp (touch 1 0 0)), (attached, PointerCancel (touch 2 5 0))])) = 0"
    by (simp add: attached_def touch_def init_state_def onPointerDown_def onPointerUp_def
        rel_def returned_def with_type_def Let_def)
  from zero_pointers_is_idle[of "[(attached, PointerDown (touch 1 0 0)), (attached, PointerDown (touch 2 5 0)),
       (attached, PointerUp (touch 1 0 0)), (attached, PointerCancel (touch 2 5 0))]"] h
  show ?thesis by blast
qed

subsection \<open>Claim C9: a zero baseline\<close>

text \<open>
  Claim C9: a second pointer goes down exactly where the tracked one is. The baseline that
  is recorded is 0, pointer moves do not change it, and every \<open>transform\<close> that a move of
  either pointer triggers carries a scale that is not finite: \<open>Infinity\<close> or \<open>NaN\<close>.
\<close>

theorem zero_baseline_scale_not_finite:
  assumes "pointers s = [(i, t)]" and "foamtree h2"
    and "\<not> (pointerType ev2 = ''mouse'' \<and> button ev2 \<noteq> 0)" and "pointerId ev2 \<noteq> i"
    and "rel h2 ev2 = xy_of t"
    and "s2 = state_after (onPointerDown h2 ev2 s)"
    and "s3 = final s2 (moves ms)"
    and "foamtree h" and "pointerId m = i \<or> pointerId m = pointerId ev2"
  shows "baseDist s2 = 0 \<and> baseDist s3 = 0 \<and>
     (\<exists>p sc. emitted (onPointerMove h m s3) = [(''transform'', scaled p sc)] \<and>
        \<not> is_finite sc \<and> (sc = PosInfinity \<or> sc = NaN))"
proof -
  have z: "dist_pt (xy_of t) (rel h2 ev2) = 0"
    using assms(5) by (simp add: dist_zero)
  have b2: "baseDist s2 = 0"
    unfolding assms(6) down_two[OF assms(1-4)] using z by (simp add: returned_def)
  from two_pointer_move[OF assms(1-4) assms(6-9)] z
  obtain t1 t2 where b3: "baseDist s3 = 0"
    and e: "emitted (onPointerMove h m s3) =
         [(''transform'', scaled (xy_of t1) (js_div (dist_pt (xy_of t1) (xy_of t2)) 0))]"
    by auto
  have "\<not> is_finite (js_div (dist_pt (xy_of t1) (xy_of t2)) 0) \<and>
      (js_div (dist_pt (xy_of t1) (xy_of t2)) 0 = PosInfinity \<or>
       js_div (dist_pt (xy_of t1) (xy_of t2)) 0 = NaN)"
    using dist_nonneg[of "xy_of t1" "xy_of t2"] by (simp add: js_div_def)
  with b2 b3 e show ?thesis by blast
qed

text \<open>
  Both touches at the origin; the second moves to (5, 0): scale \<open>Infinity\<close>.
\<close>

theorem zero_baseline_scale_not_finite_witness:
  "pointers (state_after (onPointerDown attached (touch 1 0 0) init_state))
     = [(1, with_type \<lparr> pt_x = 0, pt_y = 0 \<rparr> ''touch'')] \<and>
   rel attached (touch 2 0 0) = xy_of (with_type \<lparr> pt_x = 0, pt_y = 0 \<rparr> ''touch'') \<and>
   emitted (onPointerMove attached (touch 2 5 0)
      (final (state_after (onPointerDown attached (touch 2 0 0)
                (state_after (onPointerDown attached (touch 1 0 0) init_state))))
         (moves [])))
     = [(''transform'', scaled \<lparr> pt_x = 0, pt_y = 0 \<rparr> PosInfinity)]"
proof -
  have h1: "pointers (state_after (onPointerDown attached (touch 1 0 0) init_state))
     = [(1, with_type \<lparr> pt_x = 0, pt_y = 0 \<rparr> ''touch'')]"
    by (simp add: run_simps)
  have h2: "foamtree attached" by (simp add: attached_def)
  have h3: "\<not> (pointerType (touch 2 0 0) = ''mouse'' \<and> button (touch 2 0 0) \<noteq> 0)"
    by (simp add: touch_def)
  have h4: "pointerId (touch 2 0 0) \<noteq> 1" by (simp add: touch_def)
  have h5: "rel attached (touch 2 0 0) = xy_of (with_type \<lparr> pt_x = 0, pt_y = 0 \<rparr> ''touch'')"
    by (simp add: run_simps)
  have h9: "pointerId (touch 2 5 0) = 1 \<or> pointerId (touch 2 5 0) = pointerId (touch 2 0 0)"
    by (simp add: touch_def)
  from zero_baseline_scale_not_finite[OF h1 h2 h3 h4 h5 refl refl h2 h9, of "[]"] h1 h5
  show ?thesis
    by (simp add: run_simps scale_simps)
qed

subsection \<open>Claim C10: the similarity graph is built once\<close>

text \<open>
  Claim C10: mounting builds the similarity graph, sets \<open>minFoundSim\<close> and
  \<open>maxFoundSim\<close> from its edge scores and emits \<open>similarityGraphBuilt\<close> once. Any
  sequence of slider changes after that emits nothing and leaves the graph and the two
  bounds as they are; with a graph cached, \<open>clusterResults\<close> changes \<open>clusters\<close> only.
\<close>

theorem graph_built_once:
  "snd (mounted L pr) = [SimilarityGraphBuilt (buildSimilarityGraph L (vectors pr))] \<and>
   simGraph (fst (mounted L pr)) = Some (buildSimilarityGraph L (vectors pr)) \<and>
   minFoundSim (fst (mounted L pr)) =
     max (minSliderSim pr ()) (min_score (edgeScores L (buildSimilarityGraph L (vectors pr)))) \<and>
   maxFoundSim (fst (mounted L pr)) =
     max_score (edgeScores L (buildSimilarityGraph L (vectors pr))) \<and>
   snd (slides L pr (fst (mounted L pr)) vs) = [] \<and>
   simGraph (fst (slides L pr (fst (mounted L pr)) vs)) = simGraph (fst (mounted L pr)) \<and>
   minFoundSim (fst (slides L pr (fst (mounted L pr)) vs)) = minFoundSim (fst (mounted L pr)) \<and>
   maxFoundSim (fst (slides L pr (fst (mounted L pr)) vs)) = maxFoundSim (fst (mounted L pr)) \<and>
   (simGraph s = Some g \<longrightarrow>
      clusterResults L pr s = (s \<lparr> clusters := build_clusters L pr g (sliderSim s) \<rparr>, []))"
proof -
  have m: "snd (mounted L pr) = [SimilarityGraphBuilt (buildSimilarityGraph L (vectors pr))]"
    "simGraph (fst (mounted L pr)) = Some (buildSimilarityGraph L (vectors pr))"
    "minFoundSim (fst (mounted L pr)) =
       max (minSliderSim pr ()) (min_score (edgeScores L (buildSimilarityGraph L (vectors pr))))"
    "maxFoundSim (fst (mounted L pr)) =
       max_score (edgeScores L (buildSimilarityGraph L (vectors pr)))"
    by (simp_all add: mounted_def clusterResults_def init_cstate_def Let_def)
  show ?thesis
    using m slides_cached[OF m(2), of L pr vs] clusterResults_cached[of s g L pr]
    by simp
qed

text \<open>
  Three vectors with the scores 0.9, 0.7 and 0.8, and the slider moved to 0.8 and back.
\<close>

theorem graph_built_once_witness:
  "simGraph (fst (mounted demo_library demo_props)) = Some [[0.9, 0.7], [0.8]] \<and>
   clusterResults demo_library demo_props (fst (mounted demo_library demo_props)) =
     (fst (mounted demo_library demo_props)
        \<lparr> clusters := build_clusters demo_library demo_props [[0.9, 0.7], [0.8]]
             (sliderSim (fst (mounted demo_library demo_props))) \<rparr>, []) \<and>
   snd (mounted demo_library demo_props) = [SimilarityGraphBuilt [[0.9, 0.7], [0.8]]] \<and>
   minFoundSim (fst (mounted demo_library demo_props)) = 0.7 \<and>
   maxFoundSim (fst (mounted demo_library demo_props)) = 0.9 \<and>
   snd (slides demo_library demo_props (fst (mounted demo_library demo_props)) [0.8, 0.7]) = []"
proof -
  have g: "buildSimilarityGraph demo_library (vectors demo_props) = [[0.9, 0.7], [0.8]]"
    by (simp add: demo_library_def)
  have h: "simGraph (fst (mounted demo_library demo_props)) = Some [[0.9, 0.7], [0.8]]"
    by (simp add: mounted_def clusterResults_def init_cstate_def Let_def demo_library_def)
  have sc: "min_score (edgeScores demo_library [[0.9, 0.7], [0.8]]) = 0.7"
    "max_score (edgeScores demo_library [[0.9, 0.7], [0.8]]) = 0.9"
    "minSliderSim demo_props () = 0.6"
    by (simp_all add: min_score_def max_score_def demo_library_def demo_props_def)
  show ?thesis
    using h sc
      graph_built_once[of demo_library demo_props "[0.8, 0.7]" "fst (mounted demo_library demo_props)"
        "[[0.9, 0.7], [0.8]]"]
    unfolding g by simp
qed

end
